theory Spec2Isabelle
  imports Main "HOL-Library.Sublist"
begin

section \<open>Strings as Python sees them\<close>

text \<open>
  A Python \<open>str\<close> is modelled as a \<open>string\<close>; a \<open>char\<close> stands for the code point of
  the same number (U+0000 to U+00FF). \<open>isspace\<close> is the whitespace test that
  \<open>str.split()\<close> and \<open>str.strip()\<close> use, restricted to these code points: TAB, LF, VT, FF,
  CR, the separators U+001C to U+001F, SPACE, U+0085 and U+00A0.
\<close>

definition isspace :: "char \<Rightarrow> bool" where
  "isspace c = (let n = (of_char c :: nat)
                in (9 \<le> n \<and> n \<le> 13) \<or> (28 \<le> n \<and> n \<le> 32) \<or> n = 133 \<or> n = 160)"

text \<open>\<open>content.split()\<close>: the maximal runs of non-whitespace characters, in order.\<close>

function py_split :: "string \<Rightarrow> string list" where
  "py_split s =
     (case dropWhile isspace s of
        [] \<Rightarrow> []
      | c # r \<Rightarrow> (c # takeWhile (\<lambda>x. \<not> isspace x) r)
                 # py_split (dropWhile (\<lambda>x. \<not> isspace x) r))"
  by pat_completeness auto
termination
proof (relation "measure length")
  show "wf (measure length)" by simp
next
  fix s :: string and c r
  assume a: "dropWhile isspace s = c # r"
  have "length (dropWhile (\<lambda>x. \<not> isspace x) r) \<le> length r"
    by (rule length_dropWhile_le)
  moreover have "length (c # r) \<le> length s"
    using length_dropWhile_le [of isspace s] a by simp
  ultimately show "(dropWhile (\<lambda>x. \<not> isspace x) r, s) \<in> measure length"
    by simp
qed

text \<open>\<open>" ".join(tokens)\<close>.\<close>

fun join_sp :: "string list \<Rightarrow> string" where
  "join_sp [] = []"
| "join_sp [t] = t"
| "join_sp (t # u # ts) = t @ CHR '' '' # join_sp (u # ts)"

text \<open>
  The slices \<open>xs[:k]\<close> and \<open>xs[k:]\<close> for an integer \<open>k\<close>: a negative bound counts
  from the end and is clamped at the start of the list.
\<close>

definition slice_to :: "int \<Rightarrow> 'a list \<Rightarrow> 'a list" where
  "slice_to k xs = (if 0 \<le> k then take (nat k) xs else take (length xs - nat (- k)) xs)"

definition slice_from :: "int \<Rightarrow> 'a list \<Rightarrow> 'a list" where
  "slice_from k xs = (if 0 \<le> k then drop (nat k) xs else drop (length xs - nat (- k)) xs)"

text \<open>\<open>s.strip()\<close>: whitespace removed at both ends.\<close>

definition strip :: "string \<Rightarrow> string" where
  "strip s = rev (dropWhile isspace (rev (dropWhile isspace s)))"

text \<open>
  \<open>s.lower()\<close> on the code points modelled: the ASCII capitals and the Latin-1 capitals
  (U+00C0 to U+00DE, the multiplication sign U+00D7 apart) move up by 32.
\<close>

definition lower_char :: "char \<Rightarrow> char" where
  "lower_char c = (let n = (of_char c :: nat)
                   in if (65 \<le> n \<and> n \<le> 90) \<or> (192 \<le> n \<and> n \<le> 222 \<and> n \<noteq> 215)
                      then char_of (n + 32) else c)"

definition lower :: "string \<Rightarrow> string" where
  "lower s = map lower_char s"

text \<open>\<open>str(i)\<close> for a non-negative integer, as an f-string formats it.\<close>

fun digits_of :: "nat \<Rightarrow> string" where
  "digits_of n = (if n < 10 then [char_of (48 + n)]
                  else digits_of (n div 10) @ [char_of (48 + n mod 10)])"

section \<open>Errors\<close>

text \<open>The exceptions that leave the modelled functions, each with its message.\<close>

datatype error = ValueError string | TypeError string | Uncaught string

section \<open>Message\<close>

record message =
  role :: string
  content :: string

text \<open>The dict \<open>{"role": ..., "content": ...}\<close> that \<open>to_dict\<close> builds and the history holds.\<close>

record msg_dict =
  dict_role :: string
  dict_content :: string

text \<open>The state of a \<open>Memory\<close>: the budget and the history, oldest message first.\<close>

record memory =
  context_length :: int
  history :: "msg_dict list"

text \<open>
  The state of a \<open>LargeReasoningModel\<close> during \<open>reasoning\<close>: its memory, and how many
  times the model client and \<open>exec\<close> have been called so far.
\<close>

record lrm =
  memory :: memory
  model_calls :: nat
  exec_calls :: nat

definition to_dict :: "message \<Rightarrow> msg_dict" where
  "to_dict m = \<lparr>dict_role = role m, dict_content = content m\<rparr>"

text \<open>
  \<open>Message.truncate(max_tokens, mode)\<close>. \<open>mode\<close> is a string, and a mode that is none
  of the four known ones changes nothing but still gets the ellipsis. \<open>random.sample\<close>
  is the parameter \<open>sample\<close>; it raises ValueError for a negative size (the size is
  below the number of tokens on this path).
\<close>

definition truncate ::
  "(string list \<Rightarrow> nat \<Rightarrow> string list) \<Rightarrow> int \<Rightarrow> string \<Rightarrow> message \<Rightarrow> error + message" where
  "truncate sample max_tokens mode m =
     (let tokens = py_split (content m) in
      if int (length tokens) > max_tokens then
        (if mode = ''start'' then
           Inr (m\<lparr>content := join_sp (slice_to max_tokens tokens) @ ''...''\<rparr>)
         else if mode = ''end'' then
           Inr (m\<lparr>content := join_sp (slice_from (- max_tokens) tokens) @ ''...''\<rparr>)
         else if mode = ''mix'' then
           Inr (m\<lparr>content := join_sp (slice_to (max_tokens div 2) tokens
                                        @ slice_from ((- max_tokens) div 2) tokens) @ ''...''\<rparr>)
         else if mode = ''random'' then
           (if max_tokens < 0
            then Inl (ValueError ''Sample larger than population or is negative'')
            else Inr (m\<lparr>content := join_sp (sample tokens (nat max_tokens)) @ ''...''\<rparr>))
         else Inr (m\<lparr>content := content m @ ''...''\<rparr>))
      else Inr m)"

section \<open>Memory\<close>

text \<open>
  \<open>context_length\<close> is the budget the constructor stored (its float scaling is not part
  of the model). Token counts and the running budget are Python integers, so the running
  budget may go below zero.
\<close>

definition msg_length :: "msg_dict \<Rightarrow> int" where
  "msg_length msg = int (length (py_split (dict_content msg)))"

definition total_length :: "msg_dict list \<Rightarrow> int" where
  "total_length h = sum_list (map msg_length h)"

text \<open>
  The loop of \<open>_update_context\<close> over \<open>reversed(self.history)\<close>: \<open>new_history.insert(0, message)\<close>
  puts the message in front, \<open>break\<close> returns what has been collected.
\<close>

fun retain :: "msg_dict list \<Rightarrow> msg_dict list \<Rightarrow> int \<Rightarrow> msg_dict list" where
  "retain [] new_history remaining_length = new_history"
| "retain (message # older) new_history remaining_length =
     (let msg_len = msg_length message in
      if dict_role message = ''system'' \<or> remaining_length - msg_len \<ge> 0
      then retain older (message # new_history) (remaining_length - msg_len)
      else new_history)"

definition update_context :: "memory \<Rightarrow> memory" where
  "update_context mem =
     (if total_length (history mem) \<le> context_length mem then mem
      else mem\<lparr>history := retain (rev (history mem)) [] (context_length mem)\<rparr>)"

text \<open>\<open>add_message\<close>; the coloured print of the appended message changes no state.\<close>

definition add_message :: "memory \<Rightarrow> message \<Rightarrow> memory" where
  "add_message mem m = update_context (mem\<lparr>history := history mem @ [to_dict m]\<rparr>)"

definition clear :: "memory \<Rightarrow> memory" where
  "clear mem = mem\<lparr>history := []\<rparr>"

section \<open>Tagged spans in a response\<close>

text \<open>
  \<open>find_sub sub s\<close> is the leftmost occurrence of \<open>sub\<close> in \<open>s\<close>: the text before it
  and the text after it.
\<close>

fun find_sub :: "string \<Rightarrow> string \<Rightarrow> (string \<times> string) option" where
  "find_sub sub [] = (if sub = [] then Some ([], []) else None)"
| "find_sub sub (c # cs) =
     (if prefix sub (c # cs) then Some ([], drop (length sub) (c # cs))
      else map_option (\<lambda>(before, after). (c # before, after)) (find_sub sub cs))"

text \<open>
  \<open>pattern.search\<close> for the pattern \<open><tag>(.*?)</tag>\<close> compiled with \<open>re.DOTALL\<close>: the
  match starts at the leftmost opening tag that has a closing tag after it, and the lazy
  group ends at the first closing tag. When the leftmost opening tag has no closing tag
  after it, no later one has. The result is group 1 and the text after the match.
\<close>

definition search_tag :: "string \<Rightarrow> string \<Rightarrow> (string \<times> string) option" where
  "search_tag tag s =
     (case find_sub (''<'' @ tag @ ''>'') s of
        None \<Rightarrow> None
      | Some (before, after_open) \<Rightarrow> find_sub (''</'' @ tag @ ''>'') after_open)"

text \<open>\<open>pattern.findall\<close>: group 1 of the successive matches, each search resuming after the last match.\<close>

function findall_tag :: "string \<Rightarrow> string \<Rightarrow> string list" where
  "findall_tag tag s =
     (case search_tag tag s of
        None \<Rightarrow> []
      | Some (body, rest) \<Rightarrow> body # findall_tag tag rest)"
  by pat_completeness auto
termination
proof (relation "measure (\<lambda>(tag, s). length s)")
  show "wf (measure (\<lambda>(tag, s). length s))" by simp
next
  fix tag s :: string and x body rest
  assume a: "search_tag tag s = Some x" and x: "(body, rest) = x"
  have len: "length b + length sub + length r = length t"
    if "find_sub sub t = Some (b, r)" for sub t b r
    using that
  proof (induction t arbitrary: b)
    case Nil
    then show ?case by (simp split: if_splits)
  next
    case (Cons c cs)
    show ?case
    proof (cases "prefix sub (c # cs)")
      case True
      then have "length sub \<le> length (c # cs)" by (rule prefix_length_le)
      with True Cons.prems show ?thesis by auto
    next
      case False
      with Cons.prems obtain b' where "find_sub sub cs = Some (b', r)" and "b = c # b'"
        by auto
      with Cons.IH show ?thesis by simp
    qed
  qed
  from a x obtain before after_open
    where o: "find_sub (''<'' @ tag @ ''>'') s = Some (before, after_open)"
      and c: "find_sub (''</'' @ tag @ ''>'') after_open = Some (body, rest)"
    by (auto simp: search_tag_def split: option.splits)
  from len [OF o] len [OF c] have "length rest < length s" by simp
  then show "((tag, rest), (tag, s)) \<in> measure (\<lambda>(tag, s). length s)" by simp
qed

definition extract_python_code :: "string \<Rightarrow> string option" where
  "extract_python_code response_content =
     (case search_tag ''python'' response_content of
        Some (body, rest) \<Rightarrow> Some (strip body)
      | None \<Rightarrow> None)"

definition extract_steps :: "string \<Rightarrow> string list option" where
  "extract_steps response_content =
     (case search_tag ''step'' response_content of
        Some m \<Rightarrow> Some (findall_tag ''step'' response_content)
      | None \<Rightarrow> None)"

section \<open>Code execution\<close>

text \<open>
  What \<open>exec(code, exec_globals, local_vars)\<close> under the redirected standard output does,
  as far as \<open>execute_python_code\<close> tells the cases apart: it finishes with the captured
  output, raises ImportError (with \<open>str(imp_err)\<close>), raises another \<open>Exception\<close> (with
  the text of \<open>traceback.format_exc()\<close>), or raises something that is not an \<open>Exception\<close>
  (SystemExit, KeyboardInterrupt), which no handler catches.
\<close>

datatype exec_outcome =
    Finished string
  | Raised_ImportError string
  | Raised_Exception string
  | Raised_BaseException string

definition success_message :: "string \<Rightarrow> string \<Rightarrow> string" where
  "success_message code output =
     ''The following Python code was executed successfully:'' @ [CHR 0x0A]
     @ code @ [CHR 0x0A] @ ''Output:'' @ [CHR 0x0A] @ output"

definition execute_python_code :: "(string \<Rightarrow> exec_outcome) \<Rightarrow> string \<Rightarrow> error + string" where
  "execute_python_code py_exec code =
     (case py_exec code of
        Finished output \<Rightarrow> Inr (success_message code output)
      | Raised_ImportError imp_err \<Rightarrow> Inr (''ImportError occurred: '' @ imp_err)
      | Raised_Exception trace \<Rightarrow>
          Inr (''An error occurred while executing the code:'' @ [CHR 0x0A] @ trace)
      | Raised_BaseException e \<Rightarrow> Inl (Uncaught e))"

subsection \<open>The interpreter on a fragment of Python\<close>

text \<open>
  The globals that \<open>execute_python_code\<close> hands to \<open>exec\<close>: the whole \<open>builtins\<close> module
  and the two preloaded modules.
\<close>

datatype py_object = Module string

definition exec_globals :: "(string \<times> py_object) list" where
  "exec_globals =
     [(''__builtins__'', Module ''builtins''),
      (''math'', Module ''math''),
      (''random'', Module ''random'')]"

text \<open>
  The fragment: lines separated by LF, each one empty, \<open>import NAME\<close> or
  \<open>print(DIGITS)\<close>. An import statement calls \<open>__import__\<close>, which Python looks up in the
  \<open>__builtins__\<close> entry of the globals; the \<open>builtins\<close> module has it, and it asks the
  import system of the host interpreter, here the list \<open>host\<close> of the modules the host can
  import (modules whose import prints nothing and raises nothing). The names bound in the
  globals play no part in it. A failed import raises ModuleNotFoundError, a subclass of
  ImportError. Code outside the fragment gives \<open>None\<close>.
\<close>

datatype stmt = Import string | Print string | Blank

definition py_keywords :: "string list" where
  "py_keywords =
     [''False'', ''None'', ''True'', ''and'', ''as'', ''assert'', ''async'', ''await'',
      ''break'', ''class'', ''continue'', ''def'', ''del'', ''elif'', ''else'', ''except'',
      ''finally'', ''for'', ''from'', ''global'', ''if'', ''import'', ''in'', ''is'',
      ''lambda'', ''nonlocal'', ''not'', ''or'', ''pass'', ''raise'', ''return'', ''try'',
      ''while'', ''with'', ''yield'']"

definition is_digit :: "char \<Rightarrow> bool" where
  "is_digit c = (let n = (of_char c :: nat) in 48 \<le> n \<and> n \<le> 57)"

definition is_name_char :: "char \<Rightarrow> bool" where
  "is_name_char c =
     (let n = (of_char c :: nat)
      in (65 \<le> n \<and> n \<le> 90) \<or> (97 \<le> n \<and> n \<le> 122) \<or> n = 95 \<or> is_digit c)"

definition py_identifier :: "string \<Rightarrow> bool" where
  "py_identifier name =
     (name \<noteq> [] \<and> list_all is_name_char name \<and> \<not> is_digit (hd name)
      \<and> name \<notin> set py_keywords \<and> name \<noteq> ''print'')"

definition int_literal :: "string \<Rightarrow> bool" where
  "int_literal ds = (ds \<noteq> [] \<and> list_all is_digit ds \<and> (ds = ''0'' \<or> hd ds \<noteq> CHR ''0''))"

definition parse_line :: "string \<Rightarrow> stmt option" where
  "parse_line line =
     (if line = [] then Some Blank
      else if take 7 line = ''import '' \<and> py_identifier (drop 7 line)
        then Some (Import (drop 7 line))
      else if take 6 line = ''print('' \<and> line \<noteq> ''print('' \<and> last line = CHR '')''
              \<and> int_literal (butlast (drop 6 line))
        then Some (Print (butlast (drop 6 line)))
      else None)"

fun lines_of :: "string \<Rightarrow> string list" where
  "lines_of [] = [] # []"
| "lines_of (c # cs) =
     (if c = CHR 0x0A then [] # lines_of cs
      else (case lines_of cs of l # ls \<Rightarrow> (c # l) # ls | [] \<Rightarrow> [c] # []))"

fun parse_lines :: "string list \<Rightarrow> stmt list option" where
  "parse_lines [] = Some []"
| "parse_lines (l # ls) =
     (case parse_line l of
        None \<Rightarrow> None
      | Some st \<Rightarrow> (case parse_lines ls of None \<Rightarrow> None | Some sts \<Rightarrow> Some (st # sts)))"

fun run_stmts :: "string list \<Rightarrow> (string \<times> py_object) list \<Rightarrow> stmt list \<Rightarrow> string \<Rightarrow> exec_outcome" where
  "run_stmts host globals [] buf = Finished buf"
| "run_stmts host globals (Blank # sts) buf = run_stmts host globals sts buf"
| "run_stmts host globals (Print ds # sts) buf = run_stmts host globals sts (buf @ ds @ [CHR 0x0A])"
| "run_stmts host globals (Import name # sts) buf =
     (if map_of globals ''__builtins__'' = Some (Module ''builtins'') \<and> name \<in> set host
      then run_stmts host globals sts buf
      else if map_of globals ''__builtins__'' = Some (Module ''builtins'')
      then Raised_ImportError (''No module named '' @ [CHR 0x27] @ name @ [CHR 0x27])
      else Raised_ImportError ''__import__ not found'')"

definition exec_fragment :: "string list \<Rightarrow> string \<Rightarrow> exec_outcome option" where
  "exec_fragment host code =
     (case parse_lines (lines_of code) of
        None \<Rightarrow> None
      | Some sts \<Rightarrow> Some (run_stmts host exec_globals sts []))"

text \<open>\<open>execute_python_code\<close> on code of the fragment.\<close>

definition run_fragment :: "string list \<Rightarrow> string \<Rightarrow> (error + string) option" where
  "run_fragment host code =
     (case exec_fragment host code of
        None \<Rightarrow> None
      | Some outcome \<Rightarrow> Some (execute_python_code (\<lambda>c. outcome) code))"

section \<open>The reasoning driver\<close>

definition SYSTEM_PROMPT :: string where
  "SYSTEM_PROMPT =
     [CHR 0x0A]
   @ ''You are a large reasoning model. You are given a question and you need'' @ [CHR 0x0A]
   @ ''to reason step by step to find the answer. Do not provide the answer unless'' @ [CHR 0x0A]
   @ ''you have reasoned through the question.'' @ [CHR 0x0A]
   @ ''You can use Python code and write it in <python> and </python> tags.'' @ [CHR 0x0A]
   @ ''The Python code could help you solve some of the steps.'' @ [CHR 0x0A]
   @ ''Write it in a way that it can be parsed and executed using the exec() function.'' @ [CHR 0x0A]
   @ ''Only use Python standard libraries.'' @ [CHR 0x0A]
   @ ''Add explicit print statements so the output could be explained easily.'' @ [CHR 0x0A]
   @ ''Only use Python code if it is absolutely necessary.'' @ [CHR 0x0A]
   @ ''Be mutually exclusive and collectively exhaustive in your reasoning.'' @ [CHR 0x0A]"

definition STEPS_PROMPT :: string where
  "STEPS_PROMPT =
     [CHR 0x0A]
   @ ''First, I need to think about the question and the thinking steps I need to take.'' @ [CHR 0x0A]
   @ ''Put those steps into an opening <thinking> and closing </thinking> tag.'' @ [CHR 0x0A]
   @ ''Each step should be in a <step> tag.'' @ [CHR 0x0A]
   @ ''Example: steps to check if a number is prime:'' @ [CHR 0x0A]
   @ ''<thinking>'' @ [CHR 0x0A]
   @ ''    <step>Check if the number is greater than 1.</step>'' @ [CHR 0x0A]
   @ ''    <step>Check if the number is divisible by any number other than 1 and itself.</step>'' @ [CHR 0x0A]
   @ ''</thinking>'' @ [CHR 0x0A]
   @ ''Do not provide an answer yet.'' @ [CHR 0x0A]"

definition ANSWER_PROMPT :: string where
  "ANSWER_PROMPT =
     [CHR 0x0A]
   @ ''Now I will use the thinking steps to reason and craft the complete final answer.'' @ [CHR 0x0A]
   @ ''The answer should contain all the logical steps I took to arrive'' @ [CHR 0x0A]
   @ ''at the answer.'' @ [CHR 0x0A]
   @ ''Put the answer in an opening <answer> and closing </answer> tag.'' @ [CHR 0x0A]
   @ ''Example: <answer>The number is prime because it is greater than 1 and'' @ [CHR 0x0A]
   @ ''not divisible by any number other than 1 and itself.</answer>'' @ [CHR 0x0A]"

text \<open>
  The client and the interpreter are parameters: \<open>client k messages\<close> is the completion
  that call number \<open>k\<close> of the client returns for these messages, \<open>py_exec k code\<close> is
  what execution number \<open>k\<close> does with the code. Both calls are taken to return.
\<close>

type_synonym client = "nat \<Rightarrow> msg_dict list \<Rightarrow> string"
type_synonym interpreter = "nat \<Rightarrow> string \<Rightarrow> exec_outcome"

definition generate_response :: "client \<Rightarrow> lrm \<Rightarrow> string \<times> lrm" where
  "generate_response client st =
     (client (model_calls st) (history (memory st)), st\<lparr>model_calls := Suc (model_calls st)\<rparr>)"

text \<open>\<open>self.memory.add_message(Message(role=r, content=c))\<close>.\<close>

definition remember :: "string \<Rightarrow> string \<Rightarrow> lrm \<Rightarrow> lrm" where
  "remember r c st = st\<lparr>memory := add_message (memory st) \<lparr>role = r, content = c\<rparr>\<rparr>"

text \<open>
  The body of the \<open>try\<close> block of the parsing loop, \<open>steps = self.extract_steps(response)\<close>:
  \<open>extract_steps\<close> has no raising path on a string, so the block always completes, with
  \<open>None\<close> for \<open>steps\<close> when the response has no span.
\<close>

definition try_extract_steps :: "string \<Rightarrow> error + string list option" where
  "try_extract_steps response = Inr (extract_steps response)"

text \<open>
  The loop \<open>for _ in range(max_retries)\<close> with its \<open>else\<close> clause: \<open>break\<close> leaves with the
  response and the steps, \<open>continue\<close> goes to the next attempt, and the loop running out
  raises ValueError.
\<close>

definition parse_failure :: string where
  "parse_failure = ''Failed to parse steps from the assistant'' @ [CHR 0x27] @ ''s response.''"

definition none_not_iterable :: string where
  "none_not_iterable = [CHR 0x27] @ ''NoneType'' @ [CHR 0x27] @ '' object is not iterable''"

fun request_steps :: "client \<Rightarrow> nat \<Rightarrow> lrm \<Rightarrow> (error + string \<times> string list option) \<times> lrm" where
  "request_steps client 0 st =
     (Inl (ValueError parse_failure), st)"
| "request_steps client (Suc n) st =
     (let (response, st') = generate_response client st in
      case try_extract_steps response of
        Inr steps \<Rightarrow> (Inr (response, steps), st')
      | Inl e \<Rightarrow> request_steps client n st')"

definition step_message :: "nat \<Rightarrow> string \<Rightarrow> string" where
  "step_message i step = ''Let'' @ [CHR 0x27] @ ''s do step '' @ digits_of i @ '': '' @ step"

definition error_message :: "nat \<Rightarrow> string \<Rightarrow> string" where
  "error_message i python_output =
     ''An error occurred while executing step '' @ digits_of i @ '': '' @ python_output"

definition retry_message :: "nat \<Rightarrow> nat \<Rightarrow> nat \<Rightarrow> string" where
  "retry_message i retries max_retries =
     ''Retrying step '' @ digits_of i @ '' to ensure no further errors (Attempt ''
     @ digits_of (retries + 1) @ '' of '' @ digits_of max_retries @ '')''"

definition final_error_message :: "nat \<Rightarrow> nat \<Rightarrow> string" where
  "final_error_message i max_retries =
     ''Step '' @ digits_of i @ '' encountered errors after '' @ digits_of max_retries
     @ '' retries. Moving on to the next step.''"

text \<open>The loop \<open>while retries < max_retries and not success\<close>; it returns \<open>success\<close>.\<close>

function retry_loop ::
  "interpreter \<Rightarrow> nat \<Rightarrow> string \<Rightarrow> nat \<Rightarrow> nat \<Rightarrow> bool \<Rightarrow> lrm \<Rightarrow> (error + bool) \<times> lrm" where
  "retry_loop py_exec i python_code max_retries retries success st =
     (if retries < max_retries \<and> \<not> success then
        (let st1 = st\<lparr>exec_calls := Suc (exec_calls st)\<rparr> in
         case execute_python_code (py_exec (exec_calls st)) python_code of
           Inl e \<Rightarrow> (Inl e, st1)
         | Inr python_output \<Rightarrow>
             if sublist ''error'' (lower python_output) then
               retry_loop py_exec i python_code max_retries (retries + 1) success
                 (remember ''assistant'' (retry_message i retries max_retries)
                    (remember ''assistant'' (error_message i python_output) st1))
             else
               retry_loop py_exec i python_code max_retries retries True
                 (remember ''assistant'' python_output st1))
      else (Inr success, st))"
  by pat_completeness auto
termination
  by (relation "measure (\<lambda>(py_exec, i, python_code, max_retries, retries, success, st).
                          (max_retries - retries) + (if success then 0 else 1))") auto

text \<open>The body of the loop over the steps, for step number \<open>i\<close> (counted from 1).\<close>

definition run_step :: "client \<Rightarrow> interpreter \<Rightarrow> nat \<Rightarrow> string \<Rightarrow> lrm \<Rightarrow> (error + unit) \<times> lrm" where
  "run_step client py_exec i step st =
     (let st1 = remember ''assistant'' (step_message i step) st;
          (response, st2) = generate_response client st1;
          st3 = remember ''assistant'' response st2
      in case extract_python_code response of
           None \<Rightarrow> (Inr (), st3)
         | Some python_code \<Rightarrow>
             if python_code = [] then (Inr (), st3)
             else (case retry_loop py_exec i python_code 3 0 False st3 of
                     (Inl e, st4) \<Rightarrow> (Inl e, st4)
                   | (Inr success, st4) \<Rightarrow>
                       if \<not> success
                       then (Inr (), remember ''assistant'' (final_error_message i 3) st4)
                       else (Inr (), st4)))"

fun run_steps :: "client \<Rightarrow> interpreter \<Rightarrow> nat \<Rightarrow> string list \<Rightarrow> lrm \<Rightarrow> (error + unit) \<times> lrm" where
  "run_steps client py_exec i [] st = (Inr (), st)"
| "run_steps client py_exec i (step # steps) st =
     (case run_step client py_exec i step st of
        (Inl e, st') \<Rightarrow> (Inl e, st')
      | (Inr u, st') \<Rightarrow> run_steps client py_exec (Suc i) steps st')"

text \<open>
  \<open>reasoning(instruction, max_retries)\<close>. When \<open>steps\<close> is \<open>None\<close>, \<open>enumerate(steps, 1)\<close>
  raises TypeError.
\<close>

definition reasoning :: "client \<Rightarrow> interpreter \<Rightarrow> string \<Rightarrow> int \<Rightarrow> lrm \<Rightarrow> (error + string) \<times> lrm" where
  "reasoning client py_exec instruction max_retries st =
     (let st1 = remember ''user'' instruction st;
          st2 = remember ''assistant'' STEPS_PROMPT st1
      in case request_steps client (nat max_retries) st2 of
           (Inl e, st3) \<Rightarrow> (Inl e, st3)
         | (Inr (response, steps), st3) \<Rightarrow>
             (let st4 = remember ''assistant'' response st3
              in case steps of
                   None \<Rightarrow> (Inl (TypeError none_not_iterable), st4)
                 | Some step_list \<Rightarrow>
                     (case run_steps client py_exec 1 step_list st4 of
                        (Inl e, st5) \<Rightarrow> (Inl e, st5)
                      | (Inr u, st5) \<Rightarrow>
                          (let st6 = remember ''assistant'' ANSWER_PROMPT st5;
                               (final_response, st7) = generate_response client st6;
                               st8 = remember ''assistant'' final_response st7
                           in (Inr final_response, st8)))))"

section \<open>Predicates used in the statements\<close>

text \<open>A token: a non-empty string without whitespace.\<close>

definition token :: "string \<Rightarrow> bool" where
  "token t = (t \<noteq> [] \<and> (\<forall>c \<in> set t. \<not> isspace c))"

text \<open>The kept tokens once the ellipsis has been appended: it is glued to the last one.\<close>

definition mark_last :: "string list \<Rightarrow> string list" where
  "mark_last kept = butlast kept @ [last kept @ ''...'']"

text \<open>One possible \<open>random.sample\<close>, for closed instances: the first \<open>k\<close> tokens.\<close>

definition sample_first :: "string list \<Rightarrow> nat \<Rightarrow> string list" where
  "sample_first tokens k = take k tokens"

text \<open>Assistant messages added to the memory one after the other.\<close>

definition remember_all :: "string list \<Rightarrow> lrm \<Rightarrow> lrm" where
  "remember_all contents st = foldl (\<lambda>s c. remember ''assistant'' c s) st contents"

text \<open>The claim that every message left in a history is a system message.\<close>

definition all_system :: "msg_dict list \<Rightarrow> bool" where
  "all_system h = list_all (\<lambda>msg. dict_role msg = ''system'') h"

text \<open>Concrete states and messages for closed instances.\<close>

definition short_message :: message where
  "short_message = \<lparr>role = ''user'', content = ''a b c''\<rparr>"

definition full_memory :: memory where
  "full_memory =
     \<lparr>context_length = 3,
      history = [\<lparr>dict_role = ''system'', dict_content = ''s s''\<rparr>,
                 \<lparr>dict_role = ''user'', dict_content = ''a b c d''\<rparr>,
                 \<lparr>dict_role = ''user'', dict_content = ''x''\<rparr>,
                 \<lparr>dict_role = ''user'', dict_content = ''y z''\<rparr>]\<rparr>"

definition small_memory :: memory where
  "small_memory = \<lparr>context_length = 2, history = []\<rparr>"

definition long_system_message :: message where
  "long_system_message = \<lparr>role = ''system'', content = ''a b c''\<rparr>"

definition user_x :: message where
  "user_x = \<lparr>role = ''user'', content = ''x''\<rparr>"

definition one_message_memory :: memory where
  "one_message_memory =
     \<lparr>context_length = 1, history = [\<lparr>dict_role = ''user'', dict_content = ''a''\<rparr>]\<rparr>"

definition two_token_message :: message where
  "two_token_message = \<lparr>role = ''user'', content = ''b c''\<rparr>"

text \<open>
  The state the constructor leaves for the default \<open>context_length=128000\<close>: the budget
  \<open>int(128000 * 0.9)\<close>, which is 115200, and the system prompt added to the empty history.
\<close>

definition fresh_lrm :: lrm where
  "fresh_lrm =
     \<lparr>memory = add_message \<lparr>context_length = 115200, history = []\<rparr>
                 \<lparr>role = ''system'', content = SYSTEM_PROMPT\<rparr>,
      model_calls = 0, exec_calls = 0\<rparr>"

text \<open>A client whose completions never hold a step span, and an interpreter that is never reached.\<close>

definition client_without_steps :: client where
  "client_without_steps k messages = ''I cannot split this into steps.''"

definition idle_interpreter :: interpreter where
  "idle_interpreter k code = Finished []"

text \<open>
  A small state, a client that always answers with the same snippet, and an interpreter
  on which the snippet raises ZeroDivisionError at every execution.
\<close>

definition small_lrm :: lrm where
  "small_lrm = \<lparr>memory = \<lparr>context_length = 100, history = []\<rparr>, model_calls = 0, exec_calls = 0\<rparr>"

definition client_with_snippet :: client where
  "client_with_snippet k messages = ''<python>print(1/0)</python>''"

definition failure_trace :: string where
  "failure_trace = ''ZeroDivisionError: division by zero''"

definition failing_interpreter :: interpreter where
  "failing_interpreter k code = Raised_Exception failure_trace"

definition failure_message :: string where
  "failure_message = ''An error occurred while executing the code:'' @ [CHR 0x0A] @ failure_trace"

definition snippet_state1 :: lrm where
  "snippet_state1 = remember ''assistant'' (step_message 1 ''compute'') small_lrm"

definition snippet_state3 :: lrm where
  "snippet_state3 =
     remember ''assistant'' (client_with_snippet (model_calls small_lrm) (history (memory snippet_state1)))
       (snippet_state1\<lparr>model_calls := Suc (model_calls small_lrm)\<rparr>)"

text \<open>
  The snippet \<open>print('no error found')\<close> and an interpreter on which it finishes with
  the line it prints.
\<close>

definition report_snippet :: string where
  "report_snippet = ''print('' @ [CHR 0x27] @ ''no error found'' @ [CHR 0x27] @ '')''"

definition printing_interpreter :: interpreter where
  "printing_interpreter k code = Finished (''no error found'' @ [CHR 0x0A])"

text \<open>A host interpreter that can import \<open>math\<close>, \<open>os\<close> and \<open>random\<close>, and two snippets.\<close>

definition host_modules :: "string list" where
  "host_modules = [''math'', ''os'', ''random'']"

definition os_snippet :: string where
  "os_snippet = ''import os'' @ [CHR 0x0A] @ ''print(1)''"

definition numpy_snippet :: string where
  "numpy_snippet = ''import numpy''"

declare py_split.simps [simp del]
declare findall_tag.simps [simp del]
declare retry_loop.simps [simp del]


section \<open>Splitting and joining\<close>

lemma py_split_Nil: "py_split [] = []"
  by (subst py_split.simps) simp

lemma py_split_space: "isspace c \<Longrightarrow> py_split (c # s) = py_split s"
  by (subst py_split.simps, subst (2) py_split.simps) simp

lemma py_split_token_app:
  assumes "token t" and "r = [] \<or> isspace (hd r)"
  shows "py_split (t @ r) = t # py_split r"
proof -
  from assms(1) obtain c t' where t: "t = c # t'" and c: "\<not> isspace c"
    and t': "\<forall>x \<in> set t'. \<not> isspace x"
    by (cases t) (auto simp: token_def)
  have tw: "takeWhile (\<lambda>x. \<not> isspace x) (t' @ r) = t'"
    using t' assms(2) by (cases r) (auto simp: takeWhile_append2)
  have dw: "dropWhile (\<lambda>x. \<not> isspace x) (t' @ r) = r"
    using t' assms(2) by (cases r) (auto simp: dropWhile_append2)
  show ?thesis
    by (subst py_split.simps) (simp add: t c tw dw)
qed

lemma py_split_tokens: "t \<in> set (py_split s) \<Longrightarrow> token t"
proof (induction s arbitrary: t rule: py_split.induct)
  case (1 s)
  show ?case
  proof (cases "dropWhile isspace s")
    case Nil
    with "1.prems" show ?thesis by (subst (asm) py_split.simps) simp
  next
    case (Cons c r)
    then have c: "\<not> isspace c" using hd_dropWhile [of isspace s] by auto
    from "1.prems" Cons
    have "t = c # takeWhile (\<lambda>x. \<not> isspace x) r
          \<or> t \<in> set (py_split (dropWhile (\<lambda>x. \<not> isspace x) r))"
      by (subst (asm) py_split.simps) simp
    then show ?thesis
    proof
      assume "t = c # takeWhile (\<lambda>x. \<not> isspace x) r"
      then show ?thesis using c by (auto simp: token_def dest: set_takeWhileD)
    next
      assume "t \<in> set (py_split (dropWhile (\<lambda>x. \<not> isspace x) r))"
      then show ?thesis using "1.IH" [OF Cons] by simp
    qed
  qed
qed

lemma py_split_join:
  "\<forall>t \<in> set ts. token t \<Longrightarrow> py_split (join_sp ts) = ts"
proof (induction ts rule: join_sp.induct)
  case 1
  show ?case by (simp add: py_split_Nil)
next
  case (2 t)
  then show ?case using py_split_token_app [of t "[]"] by (simp add: py_split_Nil)
next
  case (3 t u ts)
  have sp: "isspace CHR '' ''" by (simp add: isspace_def)
  have "py_split (t @ CHR '' '' # join_sp (u # ts)) = t # py_split (CHR '' '' # join_sp (u # ts))"
    using 3 by (intro py_split_token_app) (simp_all add: sp)
  also have "\<dots> = t # py_split (join_sp (u # ts))"
    by (simp add: py_split_space [OF sp])
  finally show ?case using 3 by simp
qed

lemma join_sp_snoc:
  "ts \<noteq> [] \<Longrightarrow> join_sp ts @ e = join_sp (butlast ts @ [last ts @ e])"
  by (induction ts rule: join_sp.induct) auto

lemma token_ellipsis: "token t \<Longrightarrow> token (t @ ''...'')"
  by (auto simp: token_def isspace_def)

lemma py_split_join_ellipsis:
  assumes "\<forall>t \<in> set ts. token t" and "ts \<noteq> []"
  shows "py_split (join_sp ts @ ''...'') = butlast ts @ [last ts @ ''...'']"
proof -
  have "\<forall>t \<in> set (butlast ts @ [last ts @ ''...'']). token t"
    using assms by (auto intro: token_ellipsis dest: in_set_butlastD)
  then show ?thesis using assms(2) by (simp add: join_sp_snoc py_split_join)
qed


section \<open>Truncation of short content\<close>

text \<open>
  C9: when the content has at most \<open>max_tokens\<close> whitespace-delimited tokens, \<open>truncate\<close>
  returns the message unchanged for every mode (no ellipsis, no error), and therefore
  truncating the result once more changes nothing either.
\<close>

theorem truncate_short_noop:
  assumes "int (length (py_split (content m))) \<le> max_tokens"
  shows "truncate sample max_tokens mode m = Inr m
         \<and> (case truncate sample max_tokens mode m of
              Inr m' \<Rightarrow> truncate sample max_tokens mode m' = Inr m'
            | Inl e \<Rightarrow> False)"
proof -
  have first: "truncate sample max_tokens mode m = Inr m"
    using assms by (simp add: truncate_def Let_def)
  then show ?thesis by simp
qed

theorem truncate_short_noop_witness:
  "int (length (py_split (content short_message))) \<le> 3
   \<and> truncate sample_first 3 ''end'' short_message = Inr short_message
   \<and> (case truncate sample_first 3 ''end'' short_message of
              Inr m' \<Rightarrow> truncate sample_first 3 ''end'' m' = Inr m'
            | Inl e \<Rightarrow> False)"
proof -
  have h: "int (length (py_split (content short_message))) \<le> 3"
    by code_simp
  from truncate_short_noop [OF h, of sample_first "''end''"] h show ?thesis by blast
qed

section \<open>Token totals and the scan of the retention pass\<close>

lemma msg_length_nonneg: "0 \<le> msg_length m"
  by (simp add: msg_length_def)

lemma total_length_nonneg: "0 \<le> total_length h"
  by (auto simp: total_length_def msg_length_nonneg intro!: sum_list_nonneg)

lemma total_length_append: "total_length (a @ b) = total_length a + total_length b"
  by (simp add: total_length_def)

lemma total_length_Cons: "total_length (m # b) = msg_length m + total_length b"
  by (simp add: total_length_def)

lemma total_length_Nil: "total_length [] = 0"
  by (simp add: total_length_def)

lemma total_length_rev: "total_length (rev h) = total_length h"
  by (simp add: total_length_def rev_map [symmetric])

lemma retain_scan:
  "\<exists>kept rest. xs = kept @ rest \<and> retain xs new rem = rev kept @ new
     \<and> (\<forall>a m b. kept = a @ m # b \<longrightarrow>
            dict_role m = ''system'' \<or> 0 \<le> rem - total_length (a @ [m]))
     \<and> (rest \<noteq> [] \<longrightarrow>
            dict_role (hd rest) \<noteq> ''system'' \<and> rem - total_length (kept @ [hd rest]) < 0)"
proof (induction xs arbitrary: new rem)
  case Nil
  show ?case by simp
next
  case (Cons x xs)
  show ?case
  proof (cases "dict_role x = ''system'' \<or> rem - msg_length x \<ge> 0")
    case True
    from Cons.IH [of "x # new" "rem - msg_length x"]
    obtain kept rest where k: "xs = kept @ rest"
      and r: "retain xs (x # new) (rem - msg_length x) = rev kept @ x # new"
      and keep: "\<forall>a m b. kept = a @ m # b \<longrightarrow>
            dict_role m = ''system'' \<or> 0 \<le> rem - msg_length x - total_length (a @ [m])"
      and stop: "rest \<noteq> [] \<longrightarrow>
            dict_role (hd rest) \<noteq> ''system'' \<and> rem - msg_length x - total_length (kept @ [hd rest]) < 0"
      by blast
    have keep': "\<forall>a m b. x # kept = a @ m # b \<longrightarrow>
            dict_role m = ''system'' \<or> 0 \<le> rem - total_length (a @ [m])"
    proof (intro allI impI)
      fix a m b assume e: "x # kept = a @ m # b"
      show "dict_role m = ''system'' \<or> 0 \<le> rem - total_length (a @ [m])"
      proof (cases a)
        case Nil
        with e True show ?thesis by (auto simp: total_length_def)
      next
        case (Cons y a')
        with e have "kept = a' @ m # b" and "y = x" by auto
        with keep have "dict_role m = ''system''
              \<or> 0 \<le> rem - msg_length x - total_length (a' @ [m])" by blast
        with Cons \<open>y = x\<close> show ?thesis by (auto simp: total_length_Cons)
      qed
    qed
    have stop': "rest \<noteq> [] \<longrightarrow>
            dict_role (hd rest) \<noteq> ''system'' \<and> rem - total_length ((x # kept) @ [hd rest]) < 0"
      using stop by (auto simp: total_length_def)
    have "x # xs = (x # kept) @ rest" using k by simp
    moreover have "retain (x # xs) new rem = rev (x # kept) @ new"
      using True r by (simp add: Let_def)
    ultimately show ?thesis using keep' stop' by blast
  next
    case False
    then have "retain (x # xs) new rem = rev [] @ new" by (simp add: Let_def)
    moreover have "x # xs = [] @ (x # xs)" by simp
    moreover have "dict_role (hd (x # xs)) \<noteq> ''system'' \<and> rem - total_length ([] @ [hd (x # xs)]) < 0"
      using False by (simp add: total_length_def)
    ultimately show ?thesis by (metis append_is_Nil_conv list.distinct(1))
  qed
qed

lemma update_context_window:
  assumes "total_length (history mem) > context_length mem"
  shows "\<exists>dropped. history mem = dropped @ history (update_context mem)
     \<and> context_length (update_context mem) = context_length mem
     \<and> (\<forall>a m b. history (update_context mem) = a @ m # b \<longrightarrow>
           dict_role m = ''system'' \<or> 0 \<le> context_length mem - total_length (m # b))
     \<and> (dropped \<noteq> [] \<longrightarrow>
           dict_role (last dropped) \<noteq> ''system''
           \<and> context_length mem - total_length (last dropped # history (update_context mem)) < 0)"
proof -
  from retain_scan [of "rev (history mem)" "[]" "context_length mem"]
  obtain kept rest where k: "rev (history mem) = kept @ rest"
    and r: "retain (rev (history mem)) [] (context_length mem) = rev kept"
    and keep: "\<forall>a m b. kept = a @ m # b \<longrightarrow>
          dict_role m = ''system'' \<or> 0 \<le> context_length mem - total_length (a @ [m])"
    and stop: "rest \<noteq> [] \<longrightarrow> dict_role (hd rest) \<noteq> ''system''
          \<and> context_length mem - total_length (kept @ [hd rest]) < 0"
    by (metis append_Nil2)
  have h': "history (update_context mem) = rev kept"
    using assms r by (simp add: update_context_def)
  have c: "context_length (update_context mem) = context_length mem"
    by (simp add: update_context_def)
  have h: "history mem = rev rest @ rev kept"
    using k by (metis rev_append rev_rev_ident)
  have keep': "\<forall>a m b. rev kept = a @ m # b \<longrightarrow>
          dict_role m = ''system'' \<or> 0 \<le> context_length mem - total_length (m # b)"
  proof (intro allI impI)
    fix a m b assume "rev kept = a @ m # b"
    then have "kept = rev b @ m # rev a" by (metis rev_append rev_rev_ident rev.simps(2) append_Cons append_Nil append_assoc)
    with keep have "dict_role m = ''system'' \<or> 0 \<le> context_length mem - total_length (rev b @ [m])"
      by blast
    moreover have "total_length (rev b @ [m]) = total_length (m # b)"
      by (simp add: total_length_append total_length_rev total_length_Cons total_length_Nil)
    ultimately show "dict_role m = ''system'' \<or> 0 \<le> context_length mem - total_length (m # b)"
      by simp
  qed
  have stop': "rev rest \<noteq> [] \<longrightarrow> dict_role (last (rev rest)) \<noteq> ''system''
          \<and> context_length mem - total_length (last (rev rest) # rev kept) < 0"
  proof
    assume "rev rest \<noteq> []"
    then have ne: "rest \<noteq> []" by simp
    then have l: "last (rev rest) = hd rest" by (simp add: last_rev)
    have "total_length (kept @ [hd rest]) = total_length (hd rest # rev kept)"
      by (simp add: total_length_append total_length_rev total_length_Cons total_length_Nil)
    with stop ne l show "dict_role (last (rev rest)) \<noteq> ''system''
          \<and> context_length mem - total_length (last (rev rest) # rev kept) < 0" by simp
  qed
  show ?thesis
    using h h' c keep' stop' by (intro exI [of _ "rev rest"]) simp
qed


section \<open>The retention pass\<close>

text \<open>
  C1: when the total token count of a memory exceeds its budget, \<open>_update_context\<close> (which
  \<open>add_message\<close> runs after appending) leaves a suffix of the history, so the kept messages
  stay in their chronological order and everything older than the cut is gone, system
  messages included. Every kept message is a system message or fits the budget that
  remains once all newer messages, which are all kept, have been subtracted; and the
  newest discarded message is a non-system message that would have made this running
  budget negative. The budget itself is unchanged.
\<close>

theorem update_context_retention:
  assumes "total_length (history mem) > context_length mem"
  shows "\<exists>dropped. history mem = dropped @ history (update_context mem)
     \<and> context_length (update_context mem) = context_length mem
     \<and> (\<forall>a m b. history (update_context mem) = a @ m # b \<longrightarrow>
           dict_role m = ''system'' \<or> 0 \<le> context_length mem - total_length (m # b))
     \<and> (dropped \<noteq> [] \<longrightarrow>
           dict_role (last dropped) \<noteq> ''system''
           \<and> context_length mem - total_length (last dropped # history (update_context mem)) < 0)"
  using assms by (rule update_context_window)

theorem update_context_retention_witness:
  "total_length (history full_memory) > context_length full_memory
   \<and> (\<exists>dropped. history full_memory = dropped @ history (update_context full_memory)
     \<and> context_length (update_context full_memory) = context_length full_memory
     \<and> (\<forall>a m b. history (update_context full_memory) = a @ m # b \<longrightarrow>
           dict_role m = ''system'' \<or> 0 \<le> context_length full_memory - total_length (m # b))
     \<and> (dropped \<noteq> [] \<longrightarrow>
           dict_role (last dropped) \<noteq> ''system''
           \<and> context_length full_memory
               - total_length (last dropped # history (update_context full_memory)) < 0))"
proof -
  have h: "total_length (history full_memory) > context_length full_memory"
    by code_simp
  from update_context_retention [OF h] h show ?thesis by blast
qed

section \<open>The budget after adding a message\<close>

lemma context_length_add_message: "context_length (add_message mem msg) = context_length mem"
  by (simp add: add_message_def update_context_def)

lemma context_length_foldl:
  "context_length (foldl add_message mem msgs) = context_length mem"
  by (induction msgs arbitrary: mem) (simp_all add: context_length_add_message)

lemma update_context_suffix_budget:
  assumes "history (update_context mem) = a @ m # b" and "dict_role m \<noteq> ''system''"
  shows "total_length (m # b) \<le> context_length mem"
proof (cases "total_length (history mem) \<le> context_length mem")
  case True
  then have "history mem = a @ m # b" using assms(1) by (simp add: update_context_def)
  then have "total_length (history mem) = total_length a + total_length (m # b)"
    by (simp add: total_length_append)
  with True total_length_nonneg [of a] show ?thesis by simp
next
  case False
  then have "context_length mem < total_length (history mem)" by simp
  from update_context_window [OF this] assms show ?thesis by fastforce
qed

lemma add_message_suffix_budget:
  assumes "history (add_message mem msg) = a @ m # b" and "dict_role m \<noteq> ''system''"
  shows "total_length (m # b) \<le> context_length mem"
  using update_context_suffix_budget [of "mem\<lparr>history := history mem @ [to_dict msg]\<rparr>" a m b] assms
  by (simp add: add_message_def)

text \<open>
  C2, amended: after each \<open>add_message\<close> of any non-empty sequence of calls, every
  non-system message left in the history, together with all the messages newer than it,
  has a token total of at most the budget. So the total can exceed the budget only through
  system messages older than every non-system message, and non-system messages may
  remain next to them.
\<close>

theorem add_message_budget:
  assumes "msgs \<noteq> []"
    and "history (foldl add_message mem msgs) = a @ m # b"
    and "dict_role m \<noteq> ''system''"
  shows "total_length (m # b) \<le> context_length mem"
proof -
  from assms(1) obtain ms x where msgs: "msgs = ms @ [x]"
    by (cases msgs rule: rev_cases) auto
  with assms(2) have "history (add_message (foldl add_message mem ms) x) = a @ m # b"
    by simp
  from add_message_suffix_budget [OF this assms(3)]
  show ?thesis by (simp add: context_length_foldl)
qed

theorem add_message_budget_witness:
  "[long_system_message, user_x] \<noteq> []
   \<and> history (foldl add_message small_memory [long_system_message, user_x])
       = [to_dict long_system_message] @ to_dict user_x # []
   \<and> dict_role (to_dict user_x) \<noteq> ''system''
   \<and> total_length (to_dict user_x # []) \<le> context_length small_memory"
proof -
  have h1: "[long_system_message, user_x] \<noteq> []" by simp
  have h2: "history (foldl add_message small_memory [long_system_message, user_x])
       = [to_dict long_system_message] @ to_dict user_x # []" by code_simp
  have h3: "dict_role (to_dict user_x) \<noteq> ''system''" by code_simp
  from add_message_budget [OF h1 h2 h3] h1 h2 h3 show ?thesis by blast
qed

text \<open>
  C2 as stated fails: with budget 2, a system message of three tokens followed by a user
  message of one token leaves both in the history, at a total of four tokens.
\<close>

theorem add_message_budget_counterexample:
  "\<not> (total_length (history (foldl add_message small_memory [long_system_message, user_x]))
         \<le> context_length (foldl add_message small_memory [long_system_message, user_x])
       \<or> all_system (history (foldl add_message small_memory [long_system_message, user_x])))"
  by code_simp

section \<open>When the history becomes empty\<close>

lemma retain_keeps_new: "new \<noteq> [] \<Longrightarrow> retain xs new rem \<noteq> []"
  using retain_scan [of xs new rem] by auto

text \<open>
  C4, amended: \<open>add_message\<close> leaves the history empty exactly when the added message
  is not a system message and has more tokens than the budget; for a system message, or
  one that fits the budget, the history is non-empty afterwards.
\<close>

theorem add_message_empties_iff:
  "history (add_message mem msg) = []
   \<longleftrightarrow> role msg \<noteq> ''system'' \<and> context_length mem < msg_length (to_dict msg)"
proof (cases "total_length (history mem @ [to_dict msg]) \<le> context_length mem")
  case True
  then have "history (add_message mem msg) = history mem @ [to_dict msg]"
    by (simp add: add_message_def update_context_def)
  moreover have "msg_length (to_dict msg) \<le> context_length mem"
    using True total_length_nonneg [of "history mem"]
    by (simp add: total_length_append total_length_Cons total_length_Nil)
  ultimately show ?thesis by simp
next
  case False
  then have h: "history (add_message mem msg)
      = retain (to_dict msg # rev (history mem)) [] (context_length mem)"
    by (simp add: add_message_def update_context_def)
  show ?thesis
  proof (cases "role msg = ''system'' \<or> context_length mem - msg_length (to_dict msg) \<ge> 0")
    case True
    then have "history (add_message mem msg)
       = retain (rev (history mem)) [to_dict msg] (context_length mem - msg_length (to_dict msg))"
      using h by (auto simp: Let_def to_dict_def)
    with retain_keeps_new [of "[to_dict msg]"] True show ?thesis by auto
  next
    case False
    then have "history (add_message mem msg) = []"
      using h by (simp add: Let_def to_dict_def)
    with False show ?thesis by auto
  qed
qed

theorem add_message_empties_iff_witness:
  "history (add_message small_memory long_system_message) \<noteq> []"
  using add_message_empties_iff [of small_memory long_system_message]
  by (simp add: long_system_message_def)

text \<open>
  C4 as stated fails: with budget 1 and one message in the history, adding a user
  message of two tokens empties the history.
\<close>

theorem add_message_empties_counterexample:
  "history one_message_memory \<noteq> []
   \<and> history (add_message one_message_memory two_token_message) = []"
  by code_simp


section \<open>Truncation from the start or the end\<close>

lemma py_split_mark_last:
  assumes "set kept \<subseteq> set (py_split s)" and "kept \<noteq> []"
  shows "py_split (join_sp kept @ ''...'') = mark_last kept"
  unfolding mark_last_def
  using assms by (intro py_split_join_ellipsis) (auto dest: py_split_tokens)

text \<open>
  C6, amended: for \<open>max_tokens\<close> of at least 1 and the modes \<open>start\<close> and \<open>end\<close>,
  \<open>truncate\<close> returns a message whose content has exactly
  \<open>min(original token count, max_tokens)\<close> tokens. Content within the bound is unchanged;
  otherwise the tokens are the first (\<open>start\<close>) or the last (\<open>end\<close>) \<open>max_tokens\<close>
  tokens of the original, the last of them with the ellipsis \<open>...\<close> appended.
\<close>

theorem truncate_start_end:
  assumes "1 \<le> max_tokens" and "mode = ''start'' \<or> mode = ''end''"
  shows "\<exists>m'. truncate sample max_tokens mode m = Inr m'
     \<and> role m' = role m
     \<and> int (length (py_split (content m'))) = min (int (length (py_split (content m)))) max_tokens
     \<and> py_split (content m') =
         (let tokens = py_split (content m);
              kept = (if mode = ''start'' then take (nat max_tokens) tokens
                      else drop (length tokens - nat max_tokens) tokens)
          in if int (length tokens) > max_tokens then mark_last kept else kept)"
proof (cases "int (length (py_split (content m))) > max_tokens")
  case False
  then have "truncate sample max_tokens mode m = Inr m"
    by (simp add: truncate_def Let_def)
  with False show ?thesis by (auto simp: Let_def)
next
  case True
  define tokens where "tokens = py_split (content m)"
  define kept where "kept = (if mode = ''start'' then take (nat max_tokens) tokens
                      else drop (length tokens - nat max_tokens) tokens)"
  have len: "nat max_tokens < length tokens" "1 \<le> nat max_tokens"
    using True assms(1) by (simp_all add: tokens_def)
  have sub: "set kept \<subseteq> set (py_split (content m))"
    by (auto simp: kept_def tokens_def dest: in_set_takeD in_set_dropD)
  have klen: "length kept = nat max_tokens"
    using len by (auto simp: kept_def)
  then have ne: "kept \<noteq> []" using len by auto
  have tr: "truncate sample max_tokens mode m = Inr (m\<lparr>content := join_sp kept @ ''...''\<rparr>)"
    using True assms by (auto simp: truncate_def Let_def slice_to_def slice_from_def
        kept_def tokens_def)
  have sp: "py_split (join_sp kept @ ''...'') = mark_last kept"
    using sub ne by (rule py_split_mark_last)
  have ml: "length (mark_last kept) = nat max_tokens"
    using klen len(2) by (simp add: mark_last_def)
  show ?thesis
    using tr sp ml True assms(1) by (simp add: Let_def kept_def tokens_def)
qed

theorem truncate_start_end_witness:
  "(1::int) \<le> 2 \<and> (''end'' = ''start'' \<or> ''end'' = ''end'')
   \<and> (\<exists>m'. truncate sample_first 2 ''end'' short_message = Inr m'
     \<and> role m' = role short_message
     \<and> int (length (py_split (content m'))) = min (int (length (py_split (content short_message)))) 2
     \<and> py_split (content m') =
         (let tokens = py_split (content short_message);
              kept = (if ''end'' = ''start'' then take (nat 2) tokens
                      else drop (length tokens - nat 2) tokens)
          in if int (length tokens) > 2 then mark_last kept else kept))"
proof -
  have h1: "(1::int) \<le> 2" by simp
  have h2: "''end'' = ''start'' \<or> ''end'' = ''end''" by simp
  from truncate_start_end [OF h1 h2, of sample_first short_message] h1 h2
  show ?thesis by blast
qed

text \<open>
  C6 as stated fails: with \<open>max_tokens = 0\<close> the content becomes the ellipsis alone, one
  token and not zero; and with \<open>max_tokens = 2\<close> the second kept token of \<open>a b c\<close> is
  \<open>b...\<close>, not \<open>b\<close>.
\<close>

theorem truncate_start_end_counterexample:
  "truncate sample_first 0 ''start'' short_message = Inr \<lparr>role = ''user'', content = ''...''\<rparr>
   \<and> int (length (py_split ''...'')) \<noteq> min (int (length (py_split (content short_message)))) 0
   \<and> truncate sample_first 2 ''start'' short_message = Inr \<lparr>role = ''user'', content = ''a b...''\<rparr>
   \<and> py_split ''a b...'' \<noteq> take 2 (py_split (content short_message))"
  by code_simp

section \<open>Parsing the steps\<close>

lemma find_sub_first:
  assumes "CHR ''<'' \<notin> set t" and "\<not> sublist (CHR ''<'' # t) p"
  shows "find_sub (CHR ''<'' # t) (p @ CHR ''<'' # t @ r) = Some (p, r)"
  using assms(2)
proof (induction p)
  case Nil
  show ?case by simp
next
  case (Cons c p)
  from Cons.prems have np: "\<not> prefix (CHR ''<'' # t) (c # p)"
    and ns: "\<not> sublist (CHR ''<'' # t) p"
    by (simp_all add: sublist_Cons_right)
  have "\<not> prefix (CHR ''<'' # t) (c # p @ CHR ''<'' # t @ r)"
  proof
    assume "prefix (CHR ''<'' # t) (c # p @ CHR ''<'' # t @ r)"
    then have c: "c = CHR ''<''" and pt: "prefix t (p @ CHR ''<'' # t @ r)" by auto
    from pt consider "prefix t p" | us where "t = p @ us" and "prefix us (CHR ''<'' # t @ r)"
      by (auto simp: prefix_append)
    then show False
    proof cases
      case 1
      with c np show False by simp
    next
      case 2
      show False
      proof (cases us)
        case Nil
        with 2 c np show False by simp
      next
        case (Cons u us')
        with 2 have "u = CHR ''<''" by simp
        with 2 Cons assms(1) show False by simp
      qed
    qed
  qed
  with Cons.IH [OF ns] show ?case by simp
qed

lemma search_step_first:
  assumes "\<not> sublist ''<step>'' p" and "\<not> sublist ''</step>'' a"
  shows "search_tag ''step'' (p @ ''<step>'' @ a @ ''</step>'' @ r) = Some (a, r)"
proof -
  have o: "find_sub ''<step>'' (p @ ''<step>'' @ (a @ ''</step>'' @ r)) = Some (p, a @ ''</step>'' @ r)"
    using find_sub_first [of "''step>''" p "a @ ''</step>'' @ r"] assms(1) by simp
  have c: "find_sub ''</step>'' (a @ ''</step>'' @ r) = Some (a, r)"
    using find_sub_first [of "''/step>''" a r] assms(2) by simp
  show ?thesis using o c by (simp add: search_tag_def)
qed

text \<open>
  C5, amended: for a response with exactly two \<open><step>\<close> spans (text without an opening
  tag, a span whose content has no closing tag, again text without an opening tag, a
  second such span, and a rest in which no span is found), \<open>extract_steps\<close> returns the
  two span contents in order, each exactly as it stands between its tags, surrounding
  whitespace included.
\<close>

theorem extract_steps_two_spans:
  assumes "\<not> sublist ''<step>'' p0" and "\<not> sublist ''</step>'' a"
    and "\<not> sublist ''<step>'' p1" and "\<not> sublist ''</step>'' b"
    and "extract_steps p2 = None"
  shows "extract_steps (p0 @ ''<step>'' @ a @ ''</step>'' @ p1 @ ''<step>'' @ b @ ''</step>'' @ p2)
         = Some [a, b]"
proof -
  let ?r1 = "p1 @ ''<step>'' @ b @ ''</step>'' @ p2"
  have s1: "search_tag ''step'' (p0 @ ''<step>'' @ a @ ''</step>'' @ ?r1) = Some (a, ?r1)"
    using assms(1,2) by (rule search_step_first)
  have s2: "search_tag ''step'' ?r1 = Some (b, p2)"
    using assms(3,4) by (rule search_step_first)
  have s3: "search_tag ''step'' p2 = None"
    using assms(5) by (simp add: extract_steps_def split: option.splits)
  have f3: "findall_tag ''step'' p2 = []"
    by (subst findall_tag.simps) (simp add: s3)
  have f2: "findall_tag ''step'' ?r1 = [b]"
    by (subst findall_tag.simps) (simp only: s2 f3 option.case prod.case)
  have f1: "findall_tag ''step'' (p0 @ ''<step>'' @ a @ ''</step>'' @ ?r1) = [a, b]"
    by (subst findall_tag.simps) (simp only: s1 f2 option.case prod.case)
  show ?thesis
    unfolding extract_steps_def by (simp only: s1 f1 option.case)
qed

theorem extract_steps_two_spans_witness:
  "\<not> sublist ''<step>'' ''x '' \<and> \<not> sublist ''</step>'' '' a ''
   \<and> \<not> sublist ''<step>'' '' y '' \<and> \<not> sublist ''</step>'' ''b''
   \<and> extract_steps '' z'' = None
   \<and> extract_steps (''x '' @ ''<step>'' @ '' a '' @ ''</step>'' @ '' y '' @ ''<step>'' @ ''b''
                     @ ''</step>'' @ '' z'') = Some ['' a '', ''b'']"
proof -
  have h1: "\<not> sublist ''<step>'' ''x ''" by code_simp
  have h2: "\<not> sublist ''</step>'' '' a ''" by code_simp
  have h3: "\<not> sublist ''<step>'' '' y ''" by code_simp
  have h4: "\<not> sublist ''</step>'' ''b''" by code_simp
  have h5: "extract_steps '' z'' = None" by code_simp
  from extract_steps_two_spans [OF h1 h2 h3 h4 h5] h1 h2 h3 h4 h5 show ?thesis by blast
qed

text \<open>
  C5 as stated fails: the content \<open> a \<close> of the first span comes back with its spaces,
  not trimmed to \<open>a\<close>.
\<close>

theorem extract_steps_trimmed_counterexample:
  "extract_steps ''<step> a </step><step>b</step>'' = Some ['' a '', ''b'']
   \<and> extract_steps ''<step> a </step><step>b</step>'' \<noteq> Some [strip '' a '', strip ''b'']"
  by code_simp

section \<open>Responses without steps\<close>

lemma model_calls_remember: "model_calls (remember r c st) = model_calls st"
  by (simp add: remember_def)

lemma exec_calls_remember: "exec_calls (remember r c st) = exec_calls st"
  by (simp add: remember_def)

lemma remember_exec_calls:
  "remember r c (st\<lparr>exec_calls := n\<rparr>) = (remember r c st)\<lparr>exec_calls := n\<rparr>"
  by (simp add: remember_def)

lemma reasoning_without_steps:
  assumes "\<And>k h. extract_steps (client k h) = None" and "0 < max_retries"
  shows "fst (reasoning client py_exec instruction max_retries st) = Inl (TypeError none_not_iterable)
         \<and> model_calls (snd (reasoning client py_exec instruction max_retries st))
             = Suc (model_calls st)"
proof -
  from assms(2) obtain n where n: "nat max_retries = Suc n"
    by (cases "nat max_retries") auto
  show ?thesis
    by (simp add: reasoning_def n Let_def generate_response_def try_extract_steps_def
        assms(1) model_calls_remember)
qed

text \<open>
  C3: the claim asks for up to five model calls and then the parse-failure ValueError when
  no response holds a step span. The code does otherwise: \<open>extract_steps\<close> returns
  \<open>None\<close> instead of raising, so the first attempt leaves the loop, and iterating over
  \<open>None\<close> raises TypeError after a single model call.
\<close>

theorem reasoning_no_steps_type_error:
  "fst (reasoning client_without_steps idle_interpreter ''is 4 a perfect square?'' 5 fresh_lrm)
     = Inl (TypeError none_not_iterable)
   \<and> model_calls (snd (reasoning client_without_steps idle_interpreter
                           ''is 4 a perfect square?'' 5 fresh_lrm)) = 1"
proof -
  have e: "extract_steps (client_without_steps k h) = None" for k h
    unfolding client_without_steps_def by code_simp
  have m: "model_calls fresh_lrm = 0" by (simp add: fresh_lrm_def)
  from reasoning_without_steps [of client_without_steps 5 idle_interpreter
      "''is 4 a perfect square?''" fresh_lrm, OF e] m
  show ?thesis by simp
qed

section \<open>The retry loop of a step\<close>

lemma retry_loop_done:
  "\<not> (retries < max_retries \<and> \<not> success) \<Longrightarrow>
   retry_loop py_exec i code max_retries retries success st = (Inr success, st)"
  by (subst retry_loop.simps) auto

lemma retry_loop_failure:
  assumes "retries < max_retries"
    and "execute_python_code (py_exec (exec_calls st)) code = Inr python_output"
    and "sublist ''error'' (lower python_output)"
  shows "retry_loop py_exec i code max_retries retries False st =
         retry_loop py_exec i code max_retries (retries + 1) False
           (remember ''assistant'' (retry_message i retries max_retries)
              (remember ''assistant'' (error_message i python_output)
                 (st\<lparr>exec_calls := Suc (exec_calls st)\<rparr>)))"
  using assms by (subst retry_loop.simps) (simp add: Let_def)

lemma retry_loop_success:
  assumes "retries < max_retries"
    and "execute_python_code (py_exec (exec_calls st)) code = Inr python_output"
    and "\<not> sublist ''error'' (lower python_output)"
  shows "retry_loop py_exec i code max_retries retries False st =
         (Inr True, remember ''assistant'' python_output (st\<lparr>exec_calls := Suc (exec_calls st)\<rparr>))"
  using assms
  by (subst retry_loop.simps) (simp add: Let_def retry_loop_done)

lemma retry_loop_exec_calls:
  "exec_calls (snd (retry_loop py_exec i code max_retries retries success st))
   \<le> exec_calls st + (if success then 0 else max_retries - retries)"
proof (induction py_exec i code max_retries retries success st rule: retry_loop.induct)
  case (1 py_exec i code max_retries retries success st)
  show ?case
  proof (cases "retries < max_retries \<and> \<not> success")
    case False
    then show ?thesis by (simp add: retry_loop_done)
  next
    case True
    define st1 where "st1 = st\<lparr>exec_calls := Suc (exec_calls st)\<rparr>"
    show ?thesis
    proof (cases "execute_python_code (py_exec (exec_calls st)) code")
      case (Inl e)
      with True show ?thesis by (subst retry_loop.simps) (auto simp: Let_def)
    next
      case (Inr out)
      show ?thesis
      proof (cases "sublist ''error'' (lower out)")
        case err: True
        from "1.IH"(1) [OF True st1_def Inr err]
        have "exec_calls (snd (retry_loop py_exec i code max_retries (retries + 1) success
                 (remember ''assistant'' (retry_message i retries max_retries)
                    (remember ''assistant'' (error_message i out) st1))))
              \<le> exec_calls st1 + (max_retries - (retries + 1))"
          using True by (simp add: exec_calls_remember)
        with True Inr err show ?thesis
          by (subst retry_loop.simps) (auto simp: Let_def st1_def)
      next
        case ok: False
        from True Inr ok show ?thesis
          by (auto simp: retry_loop_success exec_calls_remember)
      qed
    qed
  qed
qed

lemma run_step_exec_calls:
  "exec_calls (snd (run_step client py_exec i step st)) \<le> exec_calls st + 3"
proof -
  define st1 where "st1 = remember ''assistant'' (step_message i step) st"
  define response where "response = client (model_calls st1) (history (memory st1))"
  define st3 where "st3 = remember ''assistant'' response (st1\<lparr>model_calls := Suc (model_calls st1)\<rparr>)"
  have e3: "exec_calls st3 = exec_calls st"
    by (simp add: st3_def st1_def exec_calls_remember)
  have b: "exec_calls s \<le> exec_calls st + 3"
    if "retry_loop py_exec i code 3 0 False st3 = (r, s)" for code r s
    using retry_loop_exec_calls [of py_exec i code 3 0 False st3] e3 that by simp
  show ?thesis
    using b e3
    by (auto simp: run_step_def Let_def generate_response_def st1_def [symmetric]
        response_def [symmetric] st3_def [symmetric] exec_calls_remember
        split: option.splits prod.splits sum.splits)
qed

lemma lower_append: "lower (a @ b) = lower a @ lower b"
  by (simp add: lower_def)

lemma exception_text_has_error:
  "sublist ''error'' (lower (''An error occurred while executing the code:'' @ rest))"
proof -
  have "sublist ''error'' (lower ''An error occurred while executing the code:'')"
    by code_simp
  then show ?thesis by (simp add: lower_append sublist_append del: append.simps)
qed

lemma import_text_has_error:
  "sublist ''error'' (lower (''ImportError occurred: '' @ rest))"
proof -
  have "sublist ''error'' (lower ''ImportError occurred: '')"
    by code_simp
  then show ?thesis by (simp add: lower_append sublist_append del: append.simps)
qed

text \<open>
  C8: for a step whose response holds a non-empty snippet, one step runs \<open>exec\<close> at most
  three times. When each of the three executions returns a result that counts as a
  failure, every one of them adds an error message and a retry announcement to the
  memory, the message that the step is given up follows, and the driver goes on with the
  next step. An execution that raises ImportError or another exception always returns
  such a result.
\<close>

theorem failed_snippet_retried_then_skipped:
  assumes ann: "announced = remember ''assistant'' (step_message i step) st"
    and resp: "response = client (model_calls st) (history (memory announced))"
    and ans: "answered = remember ''assistant'' response (announced\<lparr>model_calls := Suc (model_calls st)\<rparr>)"
    and code: "extract_python_code response = Some python_code"
    and nonempty: "python_code \<noteq> []"
    and fail: "\<forall>k<3. execute_python_code (py_exec (exec_calls st + k)) python_code = Inr (out k)
                     \<and> sublist ''error'' (lower (out k))"
  shows "run_steps client py_exec i (step # steps) st =
           run_steps client py_exec (Suc i) steps
             (remember_all
                [error_message i (out 0), retry_message i 0 3,
                 error_message i (out 1), retry_message i 1 3,
                 error_message i (out 2), retry_message i 2 3,
                 final_error_message i 3]
                (answered\<lparr>exec_calls := exec_calls st + 3\<rparr>))
         \<and> exec_calls (snd (run_step client' py_exec' i' step' st')) \<le> exec_calls st' + 3
         \<and> (py_exec' k' code' = Raised_Exception trace \<or> py_exec' k' code' = Raised_ImportError trace
              \<longrightarrow> (\<exists>python_output.
                     execute_python_code (py_exec' k') code' = Inr python_output
                     \<and> sublist ''error'' (lower python_output)))"
proof -
  have e3: "exec_calls answered = exec_calls st"
    by (simp add: ans ann exec_calls_remember)
  have m1: "model_calls announced = model_calls st"
    by (simp add: ann model_calls_remember)
  define sA where "sA = remember ''assistant'' (retry_message i 0 3)
      (remember ''assistant'' (error_message i (out 0)) (answered\<lparr>exec_calls := Suc (exec_calls answered)\<rparr>))"
  define sB where "sB = remember ''assistant'' (retry_message i 1 3)
      (remember ''assistant'' (error_message i (out 1)) (sA\<lparr>exec_calls := Suc (exec_calls sA)\<rparr>))"
  define sC where "sC = remember ''assistant'' (retry_message i 2 3)
      (remember ''assistant'' (error_message i (out 2)) (sB\<lparr>exec_calls := Suc (exec_calls sB)\<rparr>))"
  have eA: "exec_calls sA = exec_calls st + 1"
    by (simp add: sA_def exec_calls_remember e3)
  have eB: "exec_calls sB = exec_calls st + 2"
    by (simp add: sB_def exec_calls_remember eA)
  from fail have f0: "execute_python_code (py_exec (exec_calls answered)) python_code = Inr (out 0)"
    and g0: "sublist ''error'' (lower (out 0))"
    and f1: "execute_python_code (py_exec (exec_calls sA)) python_code = Inr (out 1)"
    and g1: "sublist ''error'' (lower (out 1))"
    and f2: "execute_python_code (py_exec (exec_calls sB)) python_code = Inr (out 2)"
    and g2: "sublist ''error'' (lower (out 2))"
    using e3 eA eB
      fail [rule_format, of 0] fail [rule_format, of 1] fail [rule_format, of 2]
    by simp_all
  have l0: "retry_loop py_exec i python_code 3 0 False answered
            = retry_loop py_exec i python_code 3 1 False sA"
    using retry_loop_failure [of 0 3 py_exec answered python_code "out 0" i, OF _ f0 g0]
    by (simp add: sA_def eval_nat_numeral)
  have l1: "retry_loop py_exec i python_code 3 1 False sA
            = retry_loop py_exec i python_code 3 2 False sB"
    using retry_loop_failure [of 1 3 py_exec sA python_code "out 1" i, OF _ f1 g1]
    by (simp add: sB_def eval_nat_numeral)
  have l2: "retry_loop py_exec i python_code 3 2 False sB
            = retry_loop py_exec i python_code 3 3 False sC"
    using retry_loop_failure [of 2 3 py_exec sB python_code "out 2" i, OF _ f2 g2]
    by (simp add: sC_def eval_nat_numeral)
  have l3: "retry_loop py_exec i python_code 3 3 False sC = (Inr False, sC)"
    by (simp add: retry_loop_done)
  have loop: "retry_loop py_exec i python_code 3 0 False answered = (Inr False, sC)"
    by (simp only: l0 l1 l2 l3)
  have final: "remember ''assistant'' (final_error_message i 3) sC =
        remember_all
                [error_message i (out 0), retry_message i 0 3,
                 error_message i (out 1), retry_message i 1 3,
                 error_message i (out 2), retry_message i 2 3,
                 final_error_message i 3]
                (answered\<lparr>exec_calls := exec_calls st + 3\<rparr>)"
    by (simp add: remember_all_def sC_def sB_def sA_def remember_exec_calls
        exec_calls_remember e3)
  have step: "run_step client py_exec i step st
        = (Inr (), remember ''assistant'' (final_error_message i 3) sC)"
    using code nonempty loop
    by (simp add: run_step_def Let_def generate_response_def ann [symmetric] m1
        resp [symmetric] ans [symmetric])
  have "run_steps client py_exec i (step # steps) st =
        run_steps client py_exec (Suc i) steps (remember ''assistant'' (final_error_message i 3) sC)"
    by (simp add: step)
  with final have next_step: "run_steps client py_exec i (step # steps) st =
           run_steps client py_exec (Suc i) steps
             (remember_all
                [error_message i (out 0), retry_message i 0 3,
                 error_message i (out 1), retry_message i 1 3,
                 error_message i (out 2), retry_message i 2 3,
                 final_error_message i 3]
                (answered\<lparr>exec_calls := exec_calls st + 3\<rparr>))"
    by simp
  have raised: "py_exec' k' code' = Raised_Exception trace \<or> py_exec' k' code' = Raised_ImportError trace
              \<longrightarrow> (\<exists>python_output.
                     execute_python_code (py_exec' k') code' = Inr python_output
                     \<and> sublist ''error'' (lower python_output))"
  proof (intro impI, elim disjE)
    assume "py_exec' k' code' = Raised_Exception trace"
    then have "execute_python_code (py_exec' k') code'
        = Inr (''An error occurred while executing the code:'' @ [CHR 0x0A] @ trace)"
      by (simp add: execute_python_code_def)
    with exception_text_has_error [of "[CHR 0x0A] @ trace"]
    show "\<exists>python_output. execute_python_code (py_exec' k') code' = Inr python_output
                     \<and> sublist ''error'' (lower python_output)"
      by blast
  next
    assume "py_exec' k' code' = Raised_ImportError trace"
    then have "execute_python_code (py_exec' k') code' = Inr (''ImportError occurred: '' @ trace)"
      by (simp add: execute_python_code_def)
    with import_text_has_error [of trace]
    show "\<exists>python_output. execute_python_code (py_exec' k') code' = Inr python_output
                     \<and> sublist ''error'' (lower python_output)"
      by blast
  qed
  from next_step run_step_exec_calls [of client' py_exec' i' step' st'] raised
  show ?thesis by blast
qed

theorem failed_snippet_retried_then_skipped_witness:
  "extract_python_code (client_with_snippet (model_calls small_lrm) (history (memory snippet_state1)))
     = Some ''print(1/0)''
   \<and> ''print(1/0)'' \<noteq> []
   \<and> execute_python_code (failing_interpreter (exec_calls small_lrm + 0)) ''print(1/0)''
       = Inr failure_message
   \<and> execute_python_code (failing_interpreter (exec_calls small_lrm + 1)) ''print(1/0)''
       = Inr failure_message
   \<and> execute_python_code (failing_interpreter (exec_calls small_lrm + 2)) ''print(1/0)''
       = Inr failure_message
   \<and> sublist ''error'' (lower failure_message)
   \<and> run_steps client_with_snippet failing_interpreter 1 [''compute''] small_lrm =
       run_steps client_with_snippet failing_interpreter 2 []
         (remember_all
            [error_message 1 failure_message, retry_message 1 0 3,
             error_message 1 failure_message, retry_message 1 1 3,
             error_message 1 failure_message, retry_message 1 2 3,
             final_error_message 1 3]
            (snippet_state3\<lparr>exec_calls := exec_calls small_lrm + 3\<rparr>))"
proof -
  have x: "extract_python_code ''<python>print(1/0)</python>'' = Some ''print(1/0)''"
    by code_simp
  have h4: "extract_python_code
              (client_with_snippet (model_calls small_lrm) (history (memory snippet_state1)))
            = Some ''print(1/0)''"
    using x by (simp add: client_with_snippet_def)
  have h5: "''print(1/0)'' \<noteq> []" by simp
  have e: "sublist ''error'' (lower failure_message)" by code_simp
  have h6: "\<forall>k<3. execute_python_code (failing_interpreter (exec_calls small_lrm + k)) ''print(1/0)''
                = Inr ((\<lambda>k. failure_message) k)
              \<and> sublist ''error'' (lower ((\<lambda>k. failure_message) k))"
    using e by (simp add: execute_python_code_def failing_interpreter_def failure_message_def)
  have "run_steps client_with_snippet failing_interpreter 1 (''compute'' # []) small_lrm =
       run_steps client_with_snippet failing_interpreter (Suc 1) []
         (remember_all
            [error_message 1 ((\<lambda>k. failure_message) 0), retry_message 1 0 3,
             error_message 1 ((\<lambda>k. failure_message) 1), retry_message 1 1 3,
             error_message 1 ((\<lambda>k. failure_message) 2), retry_message 1 2 3,
             final_error_message 1 3]
            (snippet_state3\<lparr>exec_calls := exec_calls small_lrm + 3\<rparr>))"
    using failed_snippet_retried_then_skipped
      [where announced = snippet_state1 and answered = snippet_state3 and st = small_lrm
         and client = client_with_snippet and py_exec = failing_interpreter and i = 1
         and step = "''compute''" and steps = "[]" and python_code = "''print(1/0)''"
         and out = "\<lambda>k. failure_message"
         and response = "client_with_snippet (model_calls small_lrm) (history (memory snippet_state1))",
       OF snippet_state1_def refl snippet_state3_def h4 h5 h6]
    by (rule conjunct1)
  then have "run_steps client_with_snippet failing_interpreter 1 [''compute''] small_lrm =
       run_steps client_with_snippet failing_interpreter 2 []
         (remember_all
            [error_message 1 failure_message, retry_message 1 0 3,
             error_message 1 failure_message, retry_message 1 1 3,
             error_message 1 failure_message, retry_message 1 2 3,
             final_error_message 1 3]
            (snippet_state3\<lparr>exec_calls := exec_calls small_lrm + 3\<rparr>))"
    by (simp add: eval_nat_numeral)
  moreover have "execute_python_code (failing_interpreter n) ''print(1/0)'' = Inr failure_message"
    for n
    by (simp add: execute_python_code_def failing_interpreter_def failure_message_def)
  ultimately show ?thesis using h4 h5 e by simp
qed


section \<open>What counts as a failed execution\<close>

lemma sublist_separator:
  assumes "c \<notin> set w"
  shows "sublist w (a @ c # b) \<longleftrightarrow> sublist w a \<or> sublist w b"
proof
  assume "sublist w a \<or> sublist w b"
  then show "sublist w (a @ c # b)"
    by (auto simp: sublist_append sublist_Cons_right)
next
  assume s: "sublist w (a @ c # b)"
  have nc: "\<not> prefix w (c # b')" if "w \<noteq> []" for b'
    using that assms by (cases w) auto
  from s consider "sublist w a" | "sublist w (c # b)"
    | w1 w2 where "w = w1 @ w2" and "suffix w1 a" and "prefix w2 (c # b)"
    by (auto simp: sublist_append)
  then show "sublist w a \<or> sublist w b"
  proof cases
    case 1
    then show ?thesis by simp
  next
    case 2
    then show ?thesis using nc [of b] by (cases "w = []") (auto simp: sublist_Cons_right)
  next
    case 3
    show ?thesis
    proof (cases w2)
      case Nil
      with 3 show ?thesis by auto
    next
      case (Cons x xs)
      with 3 have "x = c" by simp
      with 3 Cons assms show ?thesis by simp
    qed
  qed
qed

lemma error_in_success_message:
  "sublist ''error'' (lower (success_message code output))
   \<longleftrightarrow> sublist ''error'' (lower code) \<or> sublist ''error'' (lower output)"
proof -
  have nl: "lower_char (CHR 0x0A) = CHR 0x0A" by (simp add: lower_char_def)
  have sep: "CHR 0x0A \<notin> set ''error''" by simp
  have p1: "\<not> sublist ''error'' (lower ''The following Python code was executed successfully:'')"
    by code_simp
  have p2: "\<not> sublist ''error'' (lower ''Output:'')"
    by code_simp
  have "lower (success_message code output)
        = lower ''The following Python code was executed successfully:''
          @ CHR 0x0A # (lower code @ CHR 0x0A # (lower ''Output:'' @ CHR 0x0A # lower output))"
    by (simp add: success_message_def lower_def nl)
  then show ?thesis
    by (simp only: sublist_separator [OF sep] p1 p2 simp_thms)
qed

text \<open>
  C10: an execution attempt whose result string is \<open>python_output\<close> counts as failed
  exactly when the lower-cased string contains \<open>error\<close>: then the error message and the
  retry announcement are added and the loop goes on, otherwise the output is added and
  the loop ends with success. Hence a snippet that runs to the end is still recorded as
  failed and retried when its text or its printed output contains the word.
\<close>

theorem error_substring_classifies_attempt:
  assumes "retries < max_retries"
  shows "(execute_python_code (py_exec (exec_calls st)) code = Inr python_output \<longrightarrow>
            retry_loop py_exec i code max_retries retries False st =
              (if sublist ''error'' (lower python_output)
               then retry_loop py_exec i code max_retries (retries + 1) False
                      (remember ''assistant'' (retry_message i retries max_retries)
                         (remember ''assistant'' (error_message i python_output)
                            (st\<lparr>exec_calls := Suc (exec_calls st)\<rparr>)))
               else (Inr True, remember ''assistant'' python_output
                                 (st\<lparr>exec_calls := Suc (exec_calls st)\<rparr>))))
         \<and> (py_exec (exec_calls st) code = Finished output
              \<and> (sublist ''error'' (lower code) \<or> sublist ''error'' (lower output)) \<longrightarrow>
            retry_loop py_exec i code max_retries retries False st =
              retry_loop py_exec i code max_retries (retries + 1) False
                (remember ''assistant'' (retry_message i retries max_retries)
                   (remember ''assistant'' (error_message i (success_message code output))
                      (st\<lparr>exec_calls := Suc (exec_calls st)\<rparr>))))"
proof (intro conjI impI)
  assume "execute_python_code (py_exec (exec_calls st)) code = Inr python_output"
  then show "retry_loop py_exec i code max_retries retries False st =
              (if sublist ''error'' (lower python_output)
               then retry_loop py_exec i code max_retries (retries + 1) False
                      (remember ''assistant'' (retry_message i retries max_retries)
                         (remember ''assistant'' (error_message i python_output)
                            (st\<lparr>exec_calls := Suc (exec_calls st)\<rparr>)))
               else (Inr True, remember ''assistant'' python_output
                                 (st\<lparr>exec_calls := Suc (exec_calls st)\<rparr>)))"
    using assms retry_loop_failure [of retries max_retries py_exec st code python_output i]
      retry_loop_success [of retries max_retries py_exec st code python_output i]
    by (cases "sublist ''error'' (lower python_output)") simp_all
next
  assume a: "py_exec (exec_calls st) code = Finished output
              \<and> (sublist ''error'' (lower code) \<or> sublist ''error'' (lower output))"
  then have x: "execute_python_code (py_exec (exec_calls st)) code = Inr (success_message code output)"
    by (simp add: execute_python_code_def)
  from a have "sublist ''error'' (lower (success_message code output))"
    by (simp add: error_in_success_message)
  with assms x show "retry_loop py_exec i code max_retries retries False st =
              retry_loop py_exec i code max_retries (retries + 1) False
                (remember ''assistant'' (retry_message i retries max_retries)
                   (remember ''assistant'' (error_message i (success_message code output))
                      (st\<lparr>exec_calls := Suc (exec_calls st)\<rparr>)))"
    by (rule retry_loop_failure)
qed

theorem error_substring_classifies_attempt_witness:
  "(0::nat) < 3
   \<and> printing_interpreter (exec_calls small_lrm) report_snippet = Finished (''no error found'' @ [CHR 0x0A])
   \<and> (sublist ''error'' (lower report_snippet) \<or> sublist ''error'' (lower (''no error found'' @ [CHR 0x0A])))
   \<and> retry_loop printing_interpreter 1 report_snippet 3 0 False small_lrm =
        retry_loop printing_interpreter 1 report_snippet 3 (0 + 1) False
          (remember ''assistant'' (retry_message 1 0 3)
             (remember ''assistant''
                (error_message 1 (success_message report_snippet (''no error found'' @ [CHR 0x0A])))
                (small_lrm\<lparr>exec_calls := Suc (exec_calls small_lrm)\<rparr>)))"
proof -
  have h0: "(0::nat) < 3" by simp
  have h1: "printing_interpreter (exec_calls small_lrm) report_snippet
            = Finished (''no error found'' @ [CHR 0x0A])"
    by (simp add: printing_interpreter_def)
  have h2: "sublist ''error'' (lower report_snippet)
            \<or> sublist ''error'' (lower (''no error found'' @ [CHR 0x0A]))"
    by code_simp
  from error_substring_classifies_attempt [OF h0, of printing_interpreter small_lrm report_snippet
      _ 1 "''no error found'' @ [CHR 0x0A]"] h0 h1 h2
  show ?thesis by blast
qed

section \<open>Imports in executed code\<close>

lemma lines_of_single: "CHR 0x0A \<notin> set s \<Longrightarrow> lines_of s = [s]"
  by (induction s) auto

lemma py_identifier_no_newline: "py_identifier name \<Longrightarrow> CHR 0x0A \<notin> set name"
proof
  assume p: "py_identifier name" and "CHR 0x0A \<in> set name"
  then have "is_name_char (CHR 0x0A)"
    by (auto simp: py_identifier_def list_all_iff)
  then show False by (simp add: is_name_char_def is_digit_def)
qed

lemma parse_import: "py_identifier name \<Longrightarrow> parse_line (''import '' @ name) = Some (Import name)"
  by (simp add: parse_line_def)

lemma exec_fragment_import:
  assumes "py_identifier name"
  shows "exec_fragment host (''import '' @ name) =
           Some (if name \<in> set host then Finished []
                 else Raised_ImportError (''No module named '' @ [CHR 0x27] @ name @ [CHR 0x27]))"
proof -
  have "CHR 0x0A \<notin> set (''import '' @ name)"
    using py_identifier_no_newline [OF assms] by simp
  then have l: "lines_of (''import '' @ name) = [''import '' @ name]"
    by (rule lines_of_single)
  show ?thesis
    unfolding exec_fragment_def l
    by (simp add: parse_import [OF assms] exec_globals_def del: append.simps)
qed

text \<open>
  C7, amended: \<open>execute_python_code\<close> returns the string \<open>ImportError occurred: ...\<close>
  exactly when \<open>exec\<close> raises ImportError, with the message of the exception. For an
  import statement this happens when the host interpreter cannot import the module, not
  when the module is other than \<open>math\<close> and \<open>random\<close>: a module that the host can
  import is imported and the snippet counts as executed successfully.
\<close>

theorem import_error_reported:
  "(execute_python_code py_exec code = Inr (''ImportError occurred: '' @ msg)
      \<longleftrightarrow> py_exec code = Raised_ImportError msg)
   \<and> (py_identifier name \<longrightarrow>
        run_fragment host (''import '' @ name) =
          Some (Inr (if name \<in> set host then success_message (''import '' @ name) []
                     else ''ImportError occurred: '' @ ''No module named '' @ [CHR 0x27] @ name @ [CHR 0x27])))"
proof (intro conjI impI)
  show "execute_python_code py_exec code = Inr (''ImportError occurred: '' @ msg)
      \<longleftrightarrow> py_exec code = Raised_ImportError msg"
    by (cases "py_exec code") (simp_all add: execute_python_code_def success_message_def)
next
  assume "py_identifier name"
  then show "run_fragment host (''import '' @ name) =
          Some (Inr (if name \<in> set host then success_message (''import '' @ name) []
                     else ''ImportError occurred: '' @ ''No module named '' @ [CHR 0x27] @ name @ [CHR 0x27]))"
    by (simp add: run_fragment_def exec_fragment_import execute_python_code_def del: append.simps)
qed

theorem import_error_reported_witness:
  "py_identifier ''numpy''
   \<and> run_fragment host_modules numpy_snippet
       = Some (Inr (''ImportError occurred: '' @ ''No module named '' @ [CHR 0x27] @ ''numpy'' @ [CHR 0x27]))"
proof -
  have h: "py_identifier ''numpy''" by code_simp
  have n: "''numpy'' \<notin> set host_modules" by code_simp
  from import_error_reported [of _ _ _ "''numpy''" host_modules] h n
  show ?thesis by (simp add: numpy_snippet_def)
qed

text \<open>
  C7 as stated fails: \<open>os\<close> is not one of the preloaded modules, and a snippet that
  imports it runs to the end and comes back in the success string with its output.
\<close>

theorem import_outside_allow_list_counterexample:
  "''os'' \<notin> set [''math'', ''random'']
   \<and> run_fragment host_modules os_snippet
       = Some (Inr (success_message os_snippet (''1'' @ [CHR 0x0A])))"
  by code_simp

end
